theory Spec2Isabelle
  imports Complex_Main
begin

section \<open>Roster reconciliation: the model of the script verif-joueurs-laliga-SAFE-MATCH\<close>

text \<open>
  A Python \<open>str\<close> is a sequence of Unicode code points: \<open>ustr\<close> is a list of code
  point numbers. The ASCII literals of the source are written with \<open>ustr_of\<close>.
  A similarity score is a Python float between 0 and 100; it is modelled as a real
  number, so \<open>score + 25\<close> is the exact sum.
\<close>

type_synonym uchar = nat
type_synonym ustr = "uchar list"

definition ustr_of :: "string \<Rightarrow> ustr" where
  "ustr_of s = map of_char s"

subsection \<open>Library functions the source calls\<close>

text \<open>
  The source uses the Unicode tables of \<open>unicodedata\<close> and of \<open>str\<close>, and the metric
  \<open>fuzz.token_sort_ratio\<close> of rapidfuzz. None of them is code of the repository: they
  are the fields of a record that every function of the model takes as its first
  argument.
\<close>

record libs =
  normalize_NFD :: "ustr \<Rightarrow> ustr"
  category_Mn :: "uchar \<Rightarrow> bool"
  isspace :: "uchar \<Rightarrow> bool"
  lower :: "ustr \<Rightarrow> ustr"
  token_sort_ratio :: "ustr \<Rightarrow> ustr \<Rightarrow> real"

datatype error = IndexError | CacheReadError

subsection \<open>Constants\<close>

definition MAX_CACHE_AGE_HOURS :: real where "MAX_CACHE_AGE_HOURS = 24"
definition MAX_RETRIES :: nat where "MAX_RETRIES = 3"
definition PAUSE_AFTER :: nat where "PAUSE_AFTER = 10"
definition PAUSE_SECONDS :: real where "PAUSE_SECONDS = 30"

text \<open>The dict \<open>CLUB_SLUG_TO_ID\<close>, in its insertion order (the order \<open>items()\<close> iterates).\<close>

definition CLUB_SLUG_TO_ID :: "(ustr \<times> nat) list" where
  "CLUB_SLUG_TO_ID =
    [(ustr_of ''athletic-club-bilbao'', 621),
     (ustr_of ''atletico-madrid-madrid'', 13),
     (ustr_of ''barcelona-barcelona'', 131),
     (ustr_of ''celta-de-vigo-vigo'', 940),
     (ustr_of ''deportivo-alaves-vitoria-gasteiz'', 1108),
     (ustr_of ''elche-elche'', 1531),
     (ustr_of ''espanyol-barcelona'', 670),
     (ustr_of ''getafe-getafe-madrid'', 3709),
     (ustr_of ''girona-girona'', 12321),
     (ustr_of ''levante-valencia'', 3368),
     (ustr_of ''mallorca-palma-de-mallorca'', 237),
     (ustr_of ''osasuna-pamplona'', 331),
     (ustr_of ''rayo-vallecano-madrid'', 367),
     (ustr_of ''real-betis-sevilla'', 150),
     (ustr_of ''real-madrid-madrid'', 418),
     (ustr_of ''real-oviedo-oviedo'', 2497),
     (ustr_of ''real-sociedad-san-sebastian'', 681),
     (ustr_of ''sevilla-sevilla'', 368),
     (ustr_of ''valencia-valencia'', 1049),
     (ustr_of ''villarreal-villarreal'', 1050)]"

subsection \<open>Name normalizer\<close>

text \<open>\<open>remove_accents\<close>: the characters of the NFD form whose category is not Mn.\<close>

definition remove_accents :: "libs \<Rightarrow> ustr \<Rightarrow> ustr" where
  "remove_accents L text = filter (\<lambda>c. \<not> category_Mn L c) (normalize_NFD L text)"

text \<open>\<open>str.strip()\<close>: leading and trailing whitespace removed.\<close>

definition strip :: "libs \<Rightarrow> ustr \<Rightarrow> ustr" where
  "strip L s = rev (dropWhile (isspace L) (rev (dropWhile (isspace L) s)))"

text \<open>
  \<open>str.split()\<close> without argument: the maximal runs of non-whitespace characters, in
  order; no empty token, and the empty list for a string with no such character.
\<close>

function split :: "libs \<Rightarrow> ustr \<Rightarrow> ustr list" where
  "split L [] = []"
| "split L (c # cs) =
     (if isspace L c then split L cs
      else (c # takeWhile (\<lambda>d. \<not> isspace L d) cs) # split L (dropWhile (\<lambda>d. \<not> isspace L d) cs))"
  by pat_completeness auto
termination
  by (relation "measure (\<lambda>(L, s). length s)") (auto simp: length_dropWhile_le le_imp_less_Suc)

text \<open>
  \<open>extract_first_name\<close>: \<open>remove_accents(full_name.strip().split()[0]).lower()\<close>.
  Index 0 of an empty list raises IndexError.
\<close>

definition extract_first_name :: "libs \<Rightarrow> ustr \<Rightarrow> error + ustr" where
  "extract_first_name L full_name =
     (case split L (strip L full_name) of
        [] \<Rightarrow> Inl IndexError
      | t # _ \<Rightarrow> Inr (lower L (remove_accents L t)))"

subsection \<open>The data: the uploaded table and the report\<close>

text \<open>
  A row of the uploaded table, reduced to the two columns the source selects; a missing
  value (NaN) is \<open>None\<close>. \<open>dropna\<close> keeps the rows where both are present.
\<close>

record sheet_row =
  player_display_name :: "ustr option"
  team_slug :: "ustr option"

fun dropna :: "sheet_row list \<Rightarrow> (ustr \<times> ustr) list" where
  "dropna [] = []"
| "dropna (r # rs) =
     (case (player_display_name r, team_slug r) of
        (Some n, Some s) \<Rightarrow> (n, s) # dropna rs
      | _ \<Rightarrow> dropna rs)"

text \<open>
  The glyphs of the column "Match valide ?" (check mark, warning sign, cross mark, NEW
  button) and the four texts of the column "Type".
\<close>

datatype glyph = Glyph_ok | Glyph_warn | Glyph_ko | Glyph_new

datatype type_label = Match_exact | Match_partiel | Non_trouve | Nouveau_joueur

text \<open>
  A row of the report. The fields are the six keys of the dict the source appends, in
  order; \<open>similarite\<close> is \<open>None\<close> where the source writes the empty string.
\<close>

record result_row =
  nom_joueur :: ustr
  club_attribue :: ustr
  nom_transfermarkt :: ustr
  similarite :: "real option"
  match_valide :: glyph
  type_value :: type_label

subsection \<open>Roster provider client\<close>

text \<open>
  The world outside the program: the clock, the cache files (one per club id, with its
  modification time and what \<open>json.load\<close> gives on it, a list of names or a failure),
  the provider (its reply to the n-th request, for a club id) and the log of what the
  program did.
\<close>

datatype http_reply = Transport_error | Response int "ustr list option"

datatype io_event = Read_cache nat | Write_cache nat | Http_get nat | Sleep real

record cache_file =
  mtime :: real
  load :: "error + ustr list"

record world =
  clock :: real
  files :: "nat \<Rightarrow> cache_file option"
  server :: "nat \<Rightarrow> nat \<Rightarrow> http_reply"
  io_log :: "io_event list"

fun is_Http_get :: "io_event \<Rightarrow> bool" where
  "is_Http_get (Http_get _) = True"
| "is_Http_get _ = False"

definition requests_sent :: "world \<Rightarrow> nat" where
  "requests_sent w = length (filter is_Http_get (io_log w))"

definition sleep :: "real \<Rightarrow> world \<Rightarrow> world" where
  "sleep d w = w\<lparr>clock := clock w + d, io_log := io_log w @ [Sleep d]\<rparr>"

definition write_cache :: "nat \<Rightarrow> ustr list \<Rightarrow> world \<Rightarrow> world" where
  "write_cache club_id data w =
     w\<lparr>files := (files w)(club_id \<mapsto> \<lparr>mtime = clock w, load = Inr data\<rparr>),
       io_log := io_log w @ [Write_cache club_id]\<rparr>"

definition is_cache_fresh :: "world \<Rightarrow> nat \<Rightarrow> bool" where
  "is_cache_fresh w club_id =
     (case files w club_id of
        None \<Rightarrow> False
      | Some f \<Rightarrow> (clock w - mtime f) / 3600 < MAX_CACHE_AGE_HOURS)"

text \<open>
  The retry loop of \<open>fetch_or_load_players\<close>, over the attempts that remain. A reply
  gives the data when its status is 200 and its body has the list of names; a transport
  error, another status and a body that raises all lead to the pause and the next
  attempt.
\<close>

fun fetch_attempts :: "nat \<Rightarrow> nat list \<Rightarrow> world \<Rightarrow> ustr list \<times> world" where
  "fetch_attempts club_id [] w = ([], w)"
| "fetch_attempts club_id (attempt # rest) w =
     (let reply = server w (requests_sent w) club_id;
          w1 = w\<lparr>io_log := io_log w @ [Http_get club_id]\<rparr>
      in case (case reply of
                 Transport_error \<Rightarrow> None
               | Response status_code body \<Rightarrow> if status_code = 200 then body else None) of
           Some data \<Rightarrow> (data, write_cache club_id data w1)
         | None \<Rightarrow> fetch_attempts club_id rest (sleep (3 / 2 + real attempt) w1))"

text \<open>
  \<open>fetch_or_load_players\<close>: a fresh cache file is opened and loaded outside any
  \<open>try\<close>, so a failure there leaves the function as an exception.
\<close>

definition fetch_or_load_players :: "nat \<Rightarrow> ustr \<Rightarrow> world \<Rightarrow> (error + ustr list) \<times> world" where
  "fetch_or_load_players club_id slug w =
     (if is_cache_fresh w club_id then
        (case files w club_id of
           Some f \<Rightarrow> (load f, w\<lparr>io_log := io_log w @ [Read_cache club_id]\<rparr>)
         | None \<Rightarrow> (Inl CacheReadError, w))
      else
        (let (data, w') = fetch_attempts club_id [0..<MAX_RETRIES] w in (Inr data, w')))"

subsection \<open>Reconciliation of one club\<close>

text \<open>A list comprehension over \<open>extract_first_name\<close>: the first failure stops it.\<close>

fun first_names :: "libs \<Rightarrow> ustr list \<Rightarrow> error + ustr list" where
  "first_names L [] = Inr []"
| "first_names L (p # ps) =
     (case extract_first_name L p of
        Inl e \<Rightarrow> Inl e
      | Inr t \<Rightarrow> (case first_names L ps of Inl e \<Rightarrow> Inl e | Inr ts \<Rightarrow> Inr (t # ts)))"

text \<open>
  The body of the loop over the candidates (lines 105 to 110), for one candidate: the
  score that is appended. \<open>list.count\<close> is \<open>count_list\<close>.
\<close>

definition candidate_score ::
  "libs \<Rightarrow> ustr list \<Rightarrow> ustr list \<Rightarrow> ustr \<Rightarrow> ustr \<Rightarrow> ustr \<Rightarrow> error + real" where
  "candidate_score L all_transfer_firsts all_sheet_firsts name player_first candidate =
     (let score = token_sort_ratio L (remove_accents L name) (remove_accents L candidate)
      in case extract_first_name L candidate of
           Inl e \<Rightarrow> Inl e
         | Inr candidate_first \<Rightarrow>
             Inr (if candidate_first = player_first then
                    (if count_list all_transfer_firsts player_first = 1
                        \<and> count_list all_sheet_firsts player_first = 1
                     then min (score + 25) 100 else score)
                  else score))"

text \<open>The loop over the candidates (lines 104 to 112); \<open>scores\<close> is the list built so far.\<close>

fun score_candidates ::
  "libs \<Rightarrow> ustr list \<Rightarrow> ustr list \<Rightarrow> ustr \<Rightarrow> ustr \<Rightarrow> ustr list \<Rightarrow> (ustr \<times> real) list
     \<Rightarrow> error + (ustr \<times> real) list" where
  "score_candidates L all_transfer_firsts all_sheet_firsts name player_first [] scores = Inr scores"
| "score_candidates L all_transfer_firsts all_sheet_firsts name player_first (candidate # rest) scores =
     (case candidate_score L all_transfer_firsts all_sheet_firsts name player_first candidate of
        Inl e \<Rightarrow> Inl e
      | Inr score \<Rightarrow>
          score_candidates L all_transfer_firsts all_sheet_firsts name player_first rest
            (scores @ [(candidate, score)]))"

text \<open>
  \<open>scores.sort(key=lambda x: x[1], reverse=True)\<close>: Python's sort is stable, also with
  \<open>reverse=True\<close>, so the result is in descending order of the score and equal scores
  keep their order. \<open>best_of\<close> is \<open>scores[0] if scores else ("", 0)\<close> after the sort.
\<close>

definition sort_reverse :: "(ustr \<times> real) list \<Rightarrow> (ustr \<times> real) list" where
  "sort_reverse scores = sort_key (\<lambda>x. - snd x) scores"

definition best_of :: "(ustr \<times> real) list \<Rightarrow> ustr \<times> real" where
  "best_of scores = (case sort_reverse scores of [] \<Rightarrow> ([], 0) | b # _ \<Rightarrow> b)"

text \<open>\<open>round(score, 2)\<close>: the nearest multiple of 1/100, a tie going to the even one.\<close>

definition round_half_even :: "real \<Rightarrow> int" where
  "round_half_even x =
     (let f = \<lfloor>x\<rfloor>; d = x - of_int f
      in if d < 1 / 2 then f else if 1 / 2 < d then f + 1 else if even f then f else f + 1)"

definition py_round2 :: "real \<Rightarrow> real" where
  "py_round2 x = of_int (round_half_even (x * 100)) / 100"

text \<open>
  The body of the loop over the user's rows (lines 100 to 137). The state is the two
  sets of matched names and the list \<open>results\<close>.
\<close>

type_synonym match_state = "ustr set \<times> ustr set \<times> result_row list"

definition match_row ::
  "libs \<Rightarrow> ustr \<Rightarrow> ustr list \<Rightarrow> ustr list \<Rightarrow> ustr list \<Rightarrow> ustr \<Rightarrow> match_state \<Rightarrow> error + match_state" where
  "match_row L slug tm_players all_transfer_firsts all_sheet_firsts name st =
     (case st of (matched_tm_names, matched_sheet_names, results) \<Rightarrow>
      case extract_first_name L name of
        Inl e \<Rightarrow> Inl e
      | Inr player_first \<Rightarrow>
         (case score_candidates L all_transfer_firsts all_sheet_firsts name player_first tm_players [] of
            Inl e \<Rightarrow> Inl e
          | Inr scores \<Rightarrow>
             (let (best0, score) = best_of scores;
                  best = (if score \<ge> 65 then best0 else []);
                  status = (if score \<ge> 90 then Glyph_ok else if score \<ge> 65 then Glyph_warn else Glyph_ko);
                  matched_tm_names' = (if best \<noteq> [] then insert best matched_tm_names else matched_tm_names);
                  matched_sheet_names' = (if best \<noteq> [] then insert name matched_sheet_names else matched_sheet_names);
                  type_value = (if score \<ge> 90 then Match_exact else if score \<ge> 65 then Match_partiel else Non_trouve)
              in Inr (matched_tm_names', matched_sheet_names',
                      results @
                      [\<lparr>nom_joueur = name,
                        club_attribue = slug,
                        nom_transfermarkt = best,
                        similarite = (if best \<noteq> [] then Some (py_round2 score) else None),
                        match_valide = (if best \<noteq> [] then status else Glyph_ko),
                        type_value = type_value\<rparr>]))))"

fun match_rows ::
  "libs \<Rightarrow> ustr \<Rightarrow> ustr list \<Rightarrow> ustr list \<Rightarrow> ustr list \<Rightarrow> ustr list \<Rightarrow> match_state \<Rightarrow> error + match_state" where
  "match_rows L slug tm_players all_transfer_firsts all_sheet_firsts [] st = Inr st"
| "match_rows L slug tm_players all_transfer_firsts all_sheet_firsts (name # rest) st =
     (case match_row L slug tm_players all_transfer_firsts all_sheet_firsts name st of
        Inl e \<Rightarrow> Inl e
      | Inr st' \<Rightarrow> match_rows L slug tm_players all_transfer_firsts all_sheet_firsts rest st')"

text \<open>The loop over the provider's names that no row has matched (lines 139 to 148).\<close>

definition new_player_row :: "ustr \<Rightarrow> ustr \<Rightarrow> result_row" where
  "new_player_row slug tm_name =
     \<lparr>nom_joueur = [],
      club_attribue = slug,
      nom_transfermarkt = tm_name,
      similarite = None,
      match_valide = Glyph_new,
      type_value = Nouveau_joueur\<rparr>"

fun new_players :: "ustr \<Rightarrow> ustr set \<Rightarrow> ustr list \<Rightarrow> result_row list \<Rightarrow> result_row list" where
  "new_players slug matched_tm_names [] results = results"
| "new_players slug matched_tm_names (tm_name # rest) results =
     new_players slug matched_tm_names rest
       (if tm_name \<notin> matched_tm_names then results @ [new_player_row slug tm_name] else results)"

text \<open>Lines 93 to 148, for one club: the names of its rows and the provider's list.\<close>

definition reconcile_club ::
  "libs \<Rightarrow> ustr \<Rightarrow> ustr list \<Rightarrow> ustr list \<Rightarrow> result_row list \<Rightarrow> error + result_row list" where
  "reconcile_club L slug names tm_players results =
     (case first_names L tm_players of
        Inl e \<Rightarrow> Inl e
      | Inr all_transfer_firsts \<Rightarrow>
         (case first_names L names of
            Inl e \<Rightarrow> Inl e
          | Inr all_sheet_firsts \<Rightarrow>
             (case match_rows L slug tm_players all_transfer_firsts all_sheet_firsts names ({}, {}, results) of
                Inl e \<Rightarrow> Inl e
              | Inr (matched_tm_names, matched_sheet_names, results') \<Rightarrow>
                  Inr (new_players slug matched_tm_names tm_players results'))))"

subsection \<open>The report\<close>

text \<open>
  The loop over \<open>enumerate(CLUB_SLUG_TO_ID.items(), start=1)\<close>, over the entries that
  remain. An exception ends the run with the world as it is then. The call of
  \<open>os.makedirs\<close> before the loop (the cache directory exists afterwards) and the
  selection of the two columns are not part of the state that is modelled.
\<close>

fun club_loop ::
  "libs \<Rightarrow> (ustr \<times> ustr) list \<Rightarrow> (nat \<times> ustr \<times> nat) list \<Rightarrow> world \<Rightarrow> result_row list
     \<Rightarrow> (error + result_row list) \<times> world" where
  "club_loop L df [] w results = (Inr results, w)"
| "club_loop L df ((i, slug, club_id) # rest) w results =
     (let subset = filter (\<lambda>r. snd r = slug) df
      in if subset = [] then club_loop L df rest w results
         else
           (case fetch_or_load_players club_id slug w of
              (Inl e, w1) \<Rightarrow> (Inl e, w1)
            | (Inr tm_players, w1) \<Rightarrow>
                if tm_players = [] then club_loop L df rest w1 results
                else
                  (let w2 = sleep 1 w1
                   in case reconcile_club L slug (map fst subset) tm_players results of
                        Inl e \<Rightarrow> (Inl e, w2)
                      | Inr results' \<Rightarrow>
                          club_loop L df rest
                            (if i = PAUSE_AFTER then sleep PAUSE_SECONDS w2 else w2) results')))"

definition verifier_effectifs :: "libs \<Rightarrow> sheet_row list \<Rightarrow> world \<Rightarrow> (error + result_row list) \<times> world" where
  "verifier_effectifs L df w = club_loop L (dropna df) (enumerate 1 CLUB_SLUG_TO_ID) w []"

subsection \<open>A concrete instance of the library functions\<close>

text \<open>
  The library functions on ASCII strings, where NFD changes nothing, no character is a
  combining mark, the whitespace characters are the codes 9 to 13, 28 to 31 and 32, and
  \<open>lower\<close> moves A..Z to a..z. The metric \<open>exact_ratio\<close> is 100 on equal strings and 0
  otherwise: the value of \<open>token_sort_ratio\<close> on two equal strings, and on two strings
  with no character in common. The concrete runs of the whole program below compare
  such pairs only.
\<close>

definition ascii_isspace :: "uchar \<Rightarrow> bool" where
  "ascii_isspace c = ((9 \<le> c \<and> c \<le> 13) \<or> (28 \<le> c \<and> c \<le> 32))"

definition ascii_lower :: "ustr \<Rightarrow> ustr" where
  "ascii_lower s = map (\<lambda>c. if 65 \<le> c \<and> c \<le> 90 then c + 32 else c) s"

definition exact_ratio :: "ustr \<Rightarrow> ustr \<Rightarrow> real" where
  "exact_ratio x y = (if x = y then 100 else 0)"

definition ascii_libs :: libs where
  "ascii_libs =
     \<lparr>normalize_NFD = (\<lambda>s. s),
      category_Mn = (\<lambda>c. False),
      isspace = ascii_isspace,
      lower = ascii_lower,
      token_sort_ratio = exact_ratio\<rparr>"

text \<open>
  The same functions with a metric that is the same for every pair of strings, to place
  a raw score where an example needs it (55 for the example of the boost in section 8 of
  the specification, 90, 65 and 64 for the thresholds).
\<close>

definition const_libs :: "real \<Rightarrow> libs" where
  "const_libs s = ascii_libs\<lparr>token_sort_ratio := (\<lambda>x y. s)\<rparr>"

subsection \<open>The reconciliation as the specification words it\<close>

text \<open>
  The definitions of this subsection follow the specification (sections 4.1, 4.3 and
  4.4), not the source; the theorems below compare the two. The normalized first token
  of a name, as a total function (the empty string where the source raises):
\<close>

definition first_token :: "libs \<Rightarrow> ustr \<Rightarrow> ustr" where
  "first_token L s = (case extract_first_name L s of Inl _ \<Rightarrow> [] | Inr t \<Rightarrow> t)"

text \<open>
  The boost rule (4.3, step 2) for a user name \<open>n\<close> and a candidate \<open>c\<close> of a batch with
  the external names \<open>externals\<close> and the user names \<open>users\<close>.
\<close>

definition boost_applies :: "libs \<Rightarrow> ustr list \<Rightarrow> ustr list \<Rightarrow> ustr \<Rightarrow> ustr \<Rightarrow> bool" where
  "boost_applies L externals users n c \<longleftrightarrow>
     first_token L c = first_token L n
     \<and> count_list (map (first_token L) externals) (first_token L n) = 1
     \<and> count_list (map (first_token L) users) (first_token L n) = 1"

definition raw_score :: "libs \<Rightarrow> ustr \<Rightarrow> ustr \<Rightarrow> real" where
  "raw_score L n c = token_sort_ratio L (remove_accents L n) (remove_accents L c)"

definition boosted_score :: "libs \<Rightarrow> ustr list \<Rightarrow> ustr list \<Rightarrow> ustr \<Rightarrow> ustr \<Rightarrow> real" where
  "boosted_score L externals users n c =
     (if boost_applies L externals users n c then min (raw_score L n c + 25) 100
      else raw_score L n c)"

text \<open>The best candidate of a user name, with its score (4.3, step 3).\<close>

definition best_candidate :: "libs \<Rightarrow> ustr list \<Rightarrow> ustr list \<Rightarrow> ustr \<Rightarrow> ustr \<times> real" where
  "best_candidate L externals users n =
     best_of (map (\<lambda>c. (c, boosted_score L externals users n c)) externals)"

text \<open>The outcome row of a user name with a best candidate and its score (4.3, step 4).\<close>

definition outcome_row :: "ustr \<Rightarrow> ustr \<Rightarrow> ustr \<times> real \<Rightarrow> result_row" where
  "outcome_row slug n b =
     (if 90 \<le> snd b then
        \<lparr>nom_joueur = n, club_attribue = slug, nom_transfermarkt = fst b,
         similarite = Some (py_round2 (snd b)), match_valide = Glyph_ok, type_value = Match_exact\<rparr>
      else if 65 \<le> snd b then
        \<lparr>nom_joueur = n, club_attribue = slug, nom_transfermarkt = fst b,
         similarite = Some (py_round2 (snd b)), match_valide = Glyph_warn, type_value = Match_partiel\<rparr>
      else
        \<lparr>nom_joueur = n, club_attribue = slug, nom_transfermarkt = [],
         similarite = None, match_valide = Glyph_ko, type_value = Non_trouve\<rparr>)"

text \<open>
  The external names that a user name of the batch claims, and the block of rows of one
  club (4.4): the outcome rows in the order of the user's rows, then the unclaimed
  external names in the order of the provider's list.
\<close>

definition claimed :: "libs \<Rightarrow> ustr list \<Rightarrow> ustr list \<Rightarrow> ustr set" where
  "claimed L externals users =
     {fst (best_candidate L externals users n) | n.
        n \<in> set users \<and> 65 \<le> snd (best_candidate L externals users n)}"

definition club_block :: "libs \<Rightarrow> ustr \<Rightarrow> ustr list \<Rightarrow> ustr list \<Rightarrow> result_row list" where
  "club_block L slug users externals =
     map (\<lambda>n. outcome_row slug n (best_candidate L externals users n)) users
     @ map (new_player_row slug) (filter (\<lambda>t. t \<notin> claimed L externals users) externals)"

text \<open>Which rows of the report are accepted matches, and which are unclaimed names.\<close>

definition is_accepted_row :: "result_row \<Rightarrow> bool" where
  "is_accepted_row r \<longleftrightarrow> type_value r = Match_exact \<or> type_value r = Match_partiel"

definition is_new_player_row :: "result_row \<Rightarrow> bool" where
  "is_new_player_row r \<longleftrightarrow> type_value r = Nouveau_joueur"

text \<open>
  The report as 4.4 words it. \<open>rosters_seen\<close> replays the calls of the provider client
  along a run: for each club of the catalog, in order, the list the client returns,
  and \<open>None\<close> for a club that has no row in the table, for which no call is made. The
  list stops where a call raises.
\<close>

fun rosters_seen :: "(ustr \<times> ustr) list \<Rightarrow> (nat \<times> ustr \<times> nat) list \<Rightarrow> world \<Rightarrow> ustr list option list" where
  "rosters_seen df [] w = []"
| "rosters_seen df ((i, slug, club_id) # rest) w =
     (if filter (\<lambda>r. snd r = slug) df = [] then None # rosters_seen df rest w
      else
        (case fetch_or_load_players club_id slug w of
           (Inl e, w1) \<Rightarrow> []
         | (Inr externals, w1) \<Rightarrow>
             Some externals #
             rosters_seen df rest
               (if externals = [] then w1
                else if i = PAUSE_AFTER then sleep PAUSE_SECONDS (sleep 1 w1) else sleep 1 w1)))"

text \<open>
  The rows of one club: none when the table has no row for the club, none when the
  provider's list is empty, and the block of the club otherwise.
\<close>

definition club_rows :: "libs \<Rightarrow> (ustr \<times> ustr) list \<Rightarrow> ustr \<Rightarrow> ustr list option \<Rightarrow> result_row list" where
  "club_rows L df slug roster =
     (let users = map fst (filter (\<lambda>r. snd r = slug) df)
      in if users = [] then []
         else case roster of
                None \<Rightarrow> []
              | Some externals \<Rightarrow> if externals = [] then [] else club_block L slug users externals)"

text \<open>The report: the rows of the clubs, in the order of the catalog.\<close>

definition report_of ::
  "libs \<Rightarrow> (ustr \<times> ustr) list \<Rightarrow> (ustr \<times> nat) list \<Rightarrow> ustr list option list \<Rightarrow> result_row list" where
  "report_of L df catalog rosters =
     concat (map (\<lambda>((slug, club_id), roster). club_rows L df slug roster) (zip catalog rosters))"

subsection \<open>Concrete tables and worlds\<close>

text \<open>
  A table from pairs of a name and a slug. A world at time 1000 where the clubs listed
  have a fresh cache file (written at time 0) holding a list of names, and the provider
  does not answer. A world where the cache file of club 1531 is fresh and cannot be
  read, and the provider answers every request with one name.
\<close>

definition sheet :: "(string \<times> string) list \<Rightarrow> sheet_row list" where
  "sheet rows = map (\<lambda>(n, s). \<lparr>player_display_name = Some (ustr_of n), team_slug = Some (ustr_of s)\<rparr>) rows"

definition caches_world :: "(nat \<times> ustr list) list \<Rightarrow> world" where
  "caches_world caches =
     \<lparr>clock = 1000,
      files = (\<lambda>club_id. map_option (\<lambda>names. \<lparr>mtime = 0, load = Inr names\<rparr>) (map_of caches club_id)),
      server = (\<lambda>n c. Transport_error),
      io_log = []\<rparr>"

definition corrupt_cache_world :: world where
  "corrupt_cache_world =
     \<lparr>clock = 1000,
      files = (\<lambda>_. None)(1531 \<mapsto> \<lparr>mtime = 0, load = Inl CacheReadError\<rparr>),
      server = (\<lambda>n c. Response 200 (Some [ustr_of ''Jon''])),
      io_log = []\<rparr>"

section \<open>Properties\<close>

subsection \<open>The name normalizer\<close>

lemma ex_nonspace_dropWhile:
  "(\<exists>c\<in>set (dropWhile P xs). \<not> P c) \<longleftrightarrow> (\<exists>c\<in>set xs. \<not> P c)"
  by (induction xs) auto

lemma ex_nonspace_strip:
  "(\<exists>c\<in>set (strip L s). \<not> isspace L c) \<longleftrightarrow> (\<exists>c\<in>set s. \<not> isspace L c)"
  by (simp add: strip_def ex_nonspace_dropWhile)

lemma split_Nil_iff: "split L s = [] \<longleftrightarrow> (\<forall>c\<in>set s. isspace L c)"
  by (induction L s rule: split.induct) auto

lemma extract_first_name_Inr_iff:
  "(\<exists>t. extract_first_name L s = Inr t) \<longleftrightarrow> (\<exists>c\<in>set s. \<not> isspace L c)"
proof -
  have "(\<exists>t. extract_first_name L s = Inr t) \<longleftrightarrow> split L (strip L s) \<noteq> []"
    by (simp add: extract_first_name_def split: list.splits)
  also have "\<dots> \<longleftrightarrow> (\<exists>c\<in>set (strip L s). \<not> isspace L c)"
    by (simp add: split_Nil_iff)
  finally show ?thesis by (simp add: ex_nonspace_strip)
qed

text \<open>
  C1, as the spec states it, fails: on the empty name and on a name of whitespace only
  \<open>split()\<close> gives no token and index 0 raises IndexError; no empty token is returned.
\<close>

theorem extract_first_name_blank_counterexample:
  "extract_first_name ascii_libs [] = Inl IndexError
   \<and> extract_first_name ascii_libs (ustr_of ''  '') = Inl IndexError"
  by code_simp

text \<open>
  C1, amended: \<open>extract_first_name\<close> is a function of its argument (and of the Unicode
  tables), and on every name that has at least one character that is not whitespace it
  returns a string, with no error.
\<close>

theorem extract_first_name_total_on_nonblank:
  assumes "\<exists>c\<in>set full_name. \<not> isspace L c"
  shows "\<exists>t. extract_first_name L full_name = Inr t"
  using assms by (simp add: extract_first_name_Inr_iff)

theorem extract_first_name_total_on_nonblank_witness:
  "(\<exists>c\<in>set (ustr_of ''  Vini Jr ''). \<not> isspace ascii_libs c)
   \<and> (\<exists>t. extract_first_name ascii_libs (ustr_of ''  Vini Jr '') = Inr t)"
proof -
  have h: "\<exists>c\<in>set (ustr_of ''  Vini Jr ''). \<not> isspace ascii_libs c"
    by (simp add: ustr_of_def ascii_libs_def ascii_isspace_def)
  from extract_first_name_total_on_nonblank [OF h] h show ?thesis by simp
qed

subsection \<open>Closed forms of the iterations\<close>

lemma first_names_Inr:
  "first_names L ps = Inr ts \<Longrightarrow>
     ts = map (first_token L) ps \<and> (\<forall>p\<in>set ps. extract_first_name L p = Inr (first_token L p))"
  by (induction ps arbitrary: ts) (auto simp: first_token_def split: sum.splits)

lemma first_names_Inr_iff:
  "(\<exists>ts. first_names L ps = Inr ts) \<longleftrightarrow> (\<forall>p\<in>set ps. \<exists>c\<in>set p. \<not> isspace L c)"
  by (induction ps) (auto simp: extract_first_name_Inr_iff [symmetric] split: sum.splits)

lemma extract_Inr_nonempty: "extract_first_name L s = Inr t \<Longrightarrow> s \<noteq> []"
  using extract_first_name_Inr_iff [of L s] by auto

lemma candidate_score_eq:
  assumes "extract_first_name L c = Inr (first_token L c)"
  shows "candidate_score L (map (first_token L) externals) (map (first_token L) users) n (first_token L n) c
         = Inr (boosted_score L externals users n c)"
  using assms by (simp add: candidate_score_def boosted_score_def boost_applies_def raw_score_def Let_def)

lemma score_candidates_eq:
  assumes "\<forall>c\<in>set cs. extract_first_name L c = Inr (first_token L c)"
  shows "score_candidates L (map (first_token L) externals) (map (first_token L) users) n (first_token L n) cs acc
         = Inr (acc @ map (\<lambda>c. (c, boosted_score L externals users n c)) cs)"
  using assms by (induction cs arbitrary: acc) (simp_all add: candidate_score_eq)

lemma score_candidates_InrD:
  assumes "score_candidates L tf sf n pf cs acc = Inr scores"
  shows "map fst scores = map fst acc @ cs \<and> (\<forall>c\<in>set cs. \<exists>t. extract_first_name L c = Inr t)"
  using assms
proof (induction cs arbitrary: acc)
  case Nil
  then show ?case by simp
next
  case (Cons c cs)
  from Cons.prems obtain s where s: "candidate_score L tf sf n pf c = Inr s"
    and rest: "score_candidates L tf sf n pf cs (acc @ [(c, s)]) = Inr scores"
    by (auto split: sum.splits)
  from s have "\<exists>t. extract_first_name L c = Inr t"
    by (auto simp: candidate_score_def Let_def split: sum.splits)
  with Cons.IH [OF rest] show ?case by simp
qed

lemma hd_filter_first:
  assumes "\<exists>x\<in>set xs. P x"
  shows "\<exists>i<length xs. hd (filter P xs) = xs ! i \<and> P (xs ! i) \<and> (\<forall>j<i. \<not> P (xs ! j))"
  using assms
proof (induction xs)
  case Nil
  then show ?case by simp
next
  case (Cons a xs)
  show ?case
  proof (cases "P a")
    case True
    then have "hd (filter P (a # xs)) = (a # xs) ! 0 \<and> P ((a # xs) ! 0) \<and> (\<forall>j<0. \<not> P ((a # xs) ! j))"
      by simp
    then show ?thesis by blast
  next
    case False
    with Cons.prems have "\<exists>x\<in>set xs. P x" by auto
    from Cons.IH [OF this] obtain i where i: "i < length xs" "hd (filter P xs) = xs ! i" "P (xs ! i)"
      "\<forall>j<i. \<not> P (xs ! j)" by blast
    have "\<forall>j<Suc i. \<not> P ((a # xs) ! j)"
    proof (intro allI impI)
      fix j assume "j < Suc i"
      then show "\<not> P ((a # xs) ! j)" using False i(4) by (cases j) auto
    qed
    with i False have "Suc i < length (a # xs) \<and> hd (filter P (a # xs)) = (a # xs) ! Suc i
        \<and> P ((a # xs) ! Suc i) \<and> (\<forall>j<Suc i. \<not> P ((a # xs) ! j))"
      by simp
    then show ?thesis by blast
  qed
qed

lemma best_of_Nil: "best_of [] = ([], 0)"
  by (simp add: best_of_def sort_reverse_def)

lemma best_of_hd: "scores \<noteq> [] \<Longrightarrow> best_of scores = hd (sort_reverse scores)"
proof -
  assume "scores \<noteq> []"
  then have "length (sort_reverse scores) \<noteq> 0" by (simp add: sort_reverse_def)
  then have "sort_reverse scores \<noteq> []" by (simp del: length_0_conv)
  then show ?thesis by (simp add: best_of_def split: list.splits)
qed

lemma best_of_first_max:
  assumes "scores \<noteq> []"
  shows "\<exists>i<length scores. best_of scores = scores ! i
           \<and> (\<forall>j<length scores. snd (scores ! j) \<le> snd (scores ! i))
           \<and> (\<forall>j<i. snd (scores ! j) < snd (scores ! i))"
proof -
  define f where "f = (\<lambda>x::ustr \<times> real. - snd x)"
  define ys where "ys = sort_key f scores"
  define b where "b = hd ys"
  have ys_ne: "ys \<noteq> []" using assms unfolding ys_def by (metis length_0_conv length_sort)
  have b_eq: "best_of scores = b"
    using best_of_hd [OF assms] by (simp add: b_def ys_def f_def sort_reverse_def)
  obtain zs where ys: "ys = b # zs" using ys_ne b_def by (cases ys) auto
  have "sorted (map f ys)" unfolding ys_def by simp
  then have le: "\<forall>y\<in>set ys. f b \<le> f y" by (auto simp: ys)
  have set_eq: "set ys = set scores" unfolding ys_def by simp
  have "filter (\<lambda>y. f y = f b) ys = filter (\<lambda>y. f y = f b) scores"
    unfolding ys_def by (rule sort_key_stable)
  moreover have "hd (filter (\<lambda>y. f y = f b) ys) = b" by (simp add: ys)
  ultimately have hd_b: "hd (filter (\<lambda>y. f y = f b) scores) = b" by simp
  have "b \<in> set scores" using set_eq ys by auto
  then have "\<exists>x\<in>set scores. f x = f b" by blast
  from hd_filter_first [OF this] obtain i where i: "i < length scores"
    "hd (filter (\<lambda>y. f y = f b) scores) = scores ! i" "\<forall>j<i. f (scores ! j) \<noteq> f b"
    by blast
  have bi: "b = scores ! i" using i(2) hd_b by simp
  have max: "\<forall>j<length scores. snd (scores ! j) \<le> snd (scores ! i)"
  proof (intro allI impI)
    fix j assume "j < length scores"
    then have "scores ! j \<in> set ys" using set_eq by simp
    with le have "f b \<le> f (scores ! j)" by blast
    then show "snd (scores ! j) \<le> snd (scores ! i)" by (simp add: f_def bi)
  qed
  have first: "\<forall>j<i. snd (scores ! j) < snd (scores ! i)"
  proof (intro allI impI)
    fix j assume j: "j < i"
    with i(1) max have "snd (scores ! j) \<le> snd (scores ! i)" by simp
    moreover from j i(3) have "snd (scores ! j) \<noteq> snd (scores ! i)" by (simp add: f_def bi)
    ultimately show "snd (scores ! j) < snd (scores ! i)" by simp
  qed
  from i(1) b_eq bi max first show ?thesis by blast
qed

lemma best_of_mem: "scores \<noteq> [] \<Longrightarrow> best_of scores \<in> set scores"
  using best_of_first_max [of scores] by (metis nth_mem)

lemma best_candidate_accepted:
  assumes "\<forall>c\<in>set tm. extract_first_name L c = Inr (first_token L c)"
    and "65 \<le> snd (best_candidate L tm users n)"
  shows "fst (best_candidate L tm users n) \<in> set tm \<and> fst (best_candidate L tm users n) \<noteq> []"
proof (cases "tm = []")
  case True
  with assms(2) show ?thesis by (simp add: best_candidate_def best_of_Nil)
next
  case False
  then have "best_candidate L tm users n \<in> set (map (\<lambda>c. (c, boosted_score L tm users n c)) tm)"
    unfolding best_candidate_def by (intro best_of_mem) simp
  then have mem: "fst (best_candidate L tm users n) \<in> set tm" by auto
  with assms(1) have "extract_first_name L (fst (best_candidate L tm users n))
      = Inr (first_token L (fst (best_candidate L tm users n)))" by blast
  then have "fst (best_candidate L tm users n) \<noteq> []" by (rule extract_Inr_nonempty)
  with mem show ?thesis by simp
qed

lemma match_row_eq:
  assumes tm: "\<forall>c\<in>set tm. extract_first_name L c = Inr (first_token L c)"
    and n: "extract_first_name L n = Inr (first_token L n)"
  shows "match_row L slug tm (map (first_token L) tm) (map (first_token L) users) n (mtm, msh, results)
         = Inr (if 65 \<le> snd (best_candidate L tm users n)
                  then insert (fst (best_candidate L tm users n)) mtm else mtm,
                if 65 \<le> snd (best_candidate L tm users n) then insert n msh else msh,
                results @ [outcome_row slug n (best_candidate L tm users n)])"
proof -
  obtain b s where b: "best_candidate L tm users n = (b, s)" by (cases "best_candidate L tm users n")
  have sc: "score_candidates L (map (first_token L) tm) (map (first_token L) users) n (first_token L n) tm []
      = Inr (map (\<lambda>c. (c, boosted_score L tm users n c)) tm)"
    using score_candidates_eq [OF tm, of tm users n "[]"] by simp
  have bo: "best_of (map (\<lambda>c. (c, boosted_score L tm users n c)) tm) = (b, s)"
    using b by (simp add: best_candidate_def)
  have ne: "65 \<le> s \<Longrightarrow> b \<noteq> []"
    using best_candidate_accepted [OF tm, of users n] b by simp
  show ?thesis
    using ne by (simp add: match_row_def n sc bo b outcome_row_def)
qed

lemma match_rows_eq:
  assumes tm: "\<forall>c\<in>set tm. extract_first_name L c = Inr (first_token L c)"
    and ns: "\<forall>n\<in>set ns. extract_first_name L n = Inr (first_token L n)"
  shows "match_rows L slug tm (map (first_token L) tm) (map (first_token L) users) ns (mtm, msh, results)
         = Inr (mtm \<union> {fst (best_candidate L tm users n) | n.
                          n \<in> set ns \<and> 65 \<le> snd (best_candidate L tm users n)},
                msh \<union> {n \<in> set ns. 65 \<le> snd (best_candidate L tm users n)},
                results @ map (\<lambda>n. outcome_row slug n (best_candidate L tm users n)) ns)"
  using ns
proof (induction ns arbitrary: mtm msh results)
  case Nil
  then show ?case by simp
next
  case (Cons n ns)
  have n: "extract_first_name L n = Inr (first_token L n)" using Cons.prems by simp
  have rest: "\<forall>n\<in>set ns. extract_first_name L n = Inr (first_token L n)" using Cons.prems by simp
  show ?case
    unfolding match_rows.simps match_row_eq [OF tm n] sum.case Cons.IH [OF rest]
    by (cases "65 \<le> snd (best_candidate L tm users n)") auto
qed

lemma new_players_eq:
  "new_players slug m tm results = results @ map (new_player_row slug) (filter (\<lambda>t. t \<notin> m) tm)"
  by (induction tm arbitrary: results) simp_all

lemma reconcile_club_eq:
  assumes "first_names L tm = Inr tf" and "first_names L names = Inr sf"
  shows "reconcile_club L slug names tm results = Inr (results @ club_block L slug names tm)"
proof -
  from first_names_Inr [OF assms(1)] have tf: "tf = map (first_token L) tm"
    and tm: "\<forall>c\<in>set tm. extract_first_name L c = Inr (first_token L c)" by simp_all
  from first_names_Inr [OF assms(2)] have sf: "sf = map (first_token L) names"
    and ns: "\<forall>n\<in>set names. extract_first_name L n = Inr (first_token L n)" by simp_all
  show ?thesis
    unfolding reconcile_club_def assms sum.case
    unfolding tf sf match_rows_eq [OF tm ns] sum.case prod.case new_players_eq
    by (simp add: club_block_def claimed_def)
qed

lemma reconcile_club_InrD:
  assumes "reconcile_club L slug names tm results = Inr out"
  shows "(\<exists>tf. first_names L tm = Inr tf) \<and> (\<exists>sf. first_names L names = Inr sf)"
  using assms by (auto simp: reconcile_club_def split: sum.splits)

lemma reconcile_club_Inr:
  assumes "reconcile_club L slug names tm results = Inr out"
  shows "out = results @ club_block L slug names tm"
  using reconcile_club_InrD [OF assms] reconcile_club_eq [of L tm _ names _ slug results] assms
  by auto

subsection \<open>Scoring, selection and classification\<close>

text \<open>
  C4, the boost rule. In a batch where the first names of the provider's list
  \<open>tm_players\<close> and of the user's names \<open>names\<close> have been extracted, the loop over
  the candidates gives, for the user name \<open>name\<close> and every candidate \<open>c\<close> in the order of
  the provider's list, the raw score raised by 25 and capped at 100 if the first token
  of \<open>c\<close> is the first token of \<open>name\<close> and that token occurs exactly once among the
  external first tokens and exactly once among the user-side first tokens, and the raw
  score unchanged otherwise.
\<close>

theorem boost_rule:
  assumes "first_names L tm_players = Inr all_transfer_firsts"
    and "first_names L names = Inr all_sheet_firsts"
    and "extract_first_name L name = Inr player_first"
  shows "score_candidates L all_transfer_firsts all_sheet_firsts name player_first tm_players []
         = Inr (map (\<lambda>c. (c, if boost_applies L tm_players names name c
                              then min (raw_score L name c + 25) 100
                              else raw_score L name c)) tm_players)"
proof -
  from first_names_Inr [OF assms(1)] have tf: "all_transfer_firsts = map (first_token L) tm_players"
    and tm: "\<forall>c\<in>set tm_players. extract_first_name L c = Inr (first_token L c)" by simp_all
  from first_names_Inr [OF assms(2)] have sf: "all_sheet_firsts = map (first_token L) names" by simp
  have pf: "player_first = first_token L name" using assms(3) by (simp add: first_token_def)
  show ?thesis
    unfolding tf sf pf using score_candidates_eq [OF tm, of tm_players names name "[]"]
    by (simp add: boosted_score_def)
qed

theorem boost_rule_witness:
  "first_names (const_libs 55) [ustr_of ''Jon Garcia'', ustr_of ''Jonathan Perez''] = Inr [ustr_of ''jon'', ustr_of ''jonathan'']
   \<and> first_names (const_libs 55) [ustr_of ''Jon Smith''] = Inr [ustr_of ''jon'']
   \<and> extract_first_name (const_libs 55) (ustr_of ''Jon Smith'') = Inr (ustr_of ''jon'')
   \<and> score_candidates (const_libs 55) [ustr_of ''jon'', ustr_of ''jonathan''] [ustr_of ''jon'']
        (ustr_of ''Jon Smith'') (ustr_of ''jon'') [ustr_of ''Jon Garcia'', ustr_of ''Jonathan Perez''] []
      = Inr [(ustr_of ''Jon Garcia'', 80), (ustr_of ''Jonathan Perez'', 55)]"
proof -
  have h1: "first_names (const_libs 55) [ustr_of ''Jon Garcia'', ustr_of ''Jonathan Perez'']
      = Inr [ustr_of ''jon'', ustr_of ''jonathan'']" by code_simp
  have h2: "first_names (const_libs 55) [ustr_of ''Jon Smith''] = Inr [ustr_of ''jon'']" by code_simp
  have h3: "extract_first_name (const_libs 55) (ustr_of ''Jon Smith'') = Inr (ustr_of ''jon'')" by code_simp
  have e: "map (\<lambda>c. (c, if boost_applies (const_libs 55) [ustr_of ''Jon Garcia'', ustr_of ''Jonathan Perez'']
                            [ustr_of ''Jon Smith''] (ustr_of ''Jon Smith'') c
                         then min (raw_score (const_libs 55) (ustr_of ''Jon Smith'') c + 25) 100
                         else raw_score (const_libs 55) (ustr_of ''Jon Smith'') c))
             [ustr_of ''Jon Garcia'', ustr_of ''Jonathan Perez'']
           = [(ustr_of ''Jon Garcia'', 80), (ustr_of ''Jonathan Perez'', 55)]" by code_simp
  from boost_rule [OF h1 h2 h3] have "score_candidates (const_libs 55) [ustr_of ''jon'', ustr_of ''jonathan'']
      [ustr_of ''jon''] (ustr_of ''Jon Smith'') (ustr_of ''jon'') [ustr_of ''Jon Garcia'', ustr_of ''Jonathan Perez''] []
      = Inr [(ustr_of ''Jon Garcia'', 80), (ustr_of ''Jonathan Perez'', 55)]"
    by (simp only: e)
  with h1 h2 h3 show ?thesis by (simp only: simp_thms)
qed

text \<open>
  C5, the thresholds. For a user name whose candidates have been scored and whose best
  pair is \<open>(best, score)\<close>, the row appended says: from 90 on an exact match and from 65
  to below 90 a partial match, both with the best candidate as the name found, which is
  added to the matched names; below 65 no name found and the label "non trouve".
\<close>

theorem classification_thresholds:
  assumes "extract_first_name L name = Inr player_first"
    and "score_candidates L all_transfer_firsts all_sheet_firsts name player_first tm_players [] = Inr scores"
    and "best_of scores = (best, score)"
  shows "\<exists>matched_tm_names' matched_sheet_names' row.
           match_row L slug tm_players all_transfer_firsts all_sheet_firsts name
             (matched_tm_names, matched_sheet_names, results)
             = Inr (matched_tm_names', matched_sheet_names', results @ [row])
           \<and> nom_joueur row = name \<and> club_attribue row = slug
           \<and> (90 \<le> score \<longrightarrow>
                type_value row = Match_exact \<and> match_valide row = Glyph_ok
                \<and> nom_transfermarkt row = best \<and> best \<noteq> []
                \<and> similarite row = Some (py_round2 score)
                \<and> matched_tm_names' = insert best matched_tm_names)
           \<and> (65 \<le> score \<and> score < 90 \<longrightarrow>
                type_value row = Match_partiel \<and> match_valide row = Glyph_warn
                \<and> nom_transfermarkt row = best \<and> best \<noteq> []
                \<and> similarite row = Some (py_round2 score)
                \<and> matched_tm_names' = insert best matched_tm_names)
           \<and> (score < 65 \<longrightarrow>
                type_value row = Non_trouve \<and> match_valide row = Glyph_ko
                \<and> nom_transfermarkt row = [] \<and> similarite row = None
                \<and> matched_tm_names' = matched_tm_names)"
proof -
  have ne: "best \<noteq> []" if "65 \<le> score"
  proof (cases "scores = []")
    case True
    with assms(3) that show ?thesis by (simp add: best_of_Nil)
  next
    case False
    from best_of_mem [OF False] assms(3) have "best \<in> fst ` set scores" by force
    also have "fst ` set scores = set tm_players"
      using score_candidates_InrD [OF assms(2)] by (metis append_Nil list.map(1) set_map)
    finally obtain t where "extract_first_name L best = Inr t"
      using score_candidates_InrD [OF assms(2)] by blast
    then show ?thesis by (rule extract_Inr_nonempty)
  qed
  show ?thesis
    using ne by (simp add: match_row_def assms)
qed

theorem classification_thresholds_witness:
  "(extract_first_name (const_libs 90) (ustr_of ''Abe'') = Inr (ustr_of ''abe'')
    \<and> score_candidates (const_libs 90) [ustr_of ''jon''] [ustr_of ''abe''] (ustr_of ''Abe'')
        (ustr_of ''abe'') [ustr_of ''Jon''] [] = Inr [(ustr_of ''Jon'', 90)]
    \<and> best_of [(ustr_of ''Jon'', 90)] = (ustr_of ''Jon'', 90)
    \<and> (\<exists>m s row. match_row (const_libs 90) (ustr_of ''elche-elche'') [ustr_of ''Jon''] [ustr_of ''jon'']
          [ustr_of ''abe''] (ustr_of ''Abe'') ({}, {}, []) = Inr (m, s, [row])
        \<and> type_value row = Match_exact \<and> match_valide row = Glyph_ok
        \<and> nom_transfermarkt row = ustr_of ''Jon'' \<and> m = {ustr_of ''Jon''}))
   \<and> (extract_first_name (const_libs 65) (ustr_of ''Abe'') = Inr (ustr_of ''abe'')
    \<and> score_candidates (const_libs 65) [ustr_of ''jon''] [ustr_of ''abe''] (ustr_of ''Abe'')
        (ustr_of ''abe'') [ustr_of ''Jon''] [] = Inr [(ustr_of ''Jon'', 65)]
    \<and> best_of [(ustr_of ''Jon'', 65)] = (ustr_of ''Jon'', 65)
    \<and> (\<exists>m s row. match_row (const_libs 65) (ustr_of ''elche-elche'') [ustr_of ''Jon''] [ustr_of ''jon'']
          [ustr_of ''abe''] (ustr_of ''Abe'') ({}, {}, []) = Inr (m, s, [row])
        \<and> type_value row = Match_partiel \<and> match_valide row = Glyph_warn
        \<and> nom_transfermarkt row = ustr_of ''Jon'' \<and> m = {ustr_of ''Jon''}))
   \<and> (extract_first_name (const_libs 64) (ustr_of ''Abe'') = Inr (ustr_of ''abe'')
    \<and> score_candidates (const_libs 64) [ustr_of ''jon''] [ustr_of ''abe''] (ustr_of ''Abe'')
        (ustr_of ''abe'') [ustr_of ''Jon''] [] = Inr [(ustr_of ''Jon'', 64)]
    \<and> best_of [(ustr_of ''Jon'', 64)] = (ustr_of ''Jon'', 64)
    \<and> (\<exists>m s row. match_row (const_libs 64) (ustr_of ''elche-elche'') [ustr_of ''Jon''] [ustr_of ''jon'']
          [ustr_of ''abe''] (ustr_of ''Abe'') ({}, {}, []) = Inr (m, s, [row])
        \<and> type_value row = Non_trouve \<and> match_valide row = Glyph_ko
        \<and> nom_transfermarkt row = [] \<and> m = {}))"
proof -
  have a1: "extract_first_name (const_libs 90) (ustr_of ''Abe'') = Inr (ustr_of ''abe'')" by code_simp
  have a2: "score_candidates (const_libs 90) [ustr_of ''jon''] [ustr_of ''abe''] (ustr_of ''Abe'')
        (ustr_of ''abe'') [ustr_of ''Jon''] [] = Inr [(ustr_of ''Jon'', 90)]" by code_simp
  have a3: "best_of [(ustr_of ''Jon'', 90)] = (ustr_of ''Jon'', 90)"
    by (simp add: best_of_def sort_reverse_def)
  have b1: "extract_first_name (const_libs 65) (ustr_of ''Abe'') = Inr (ustr_of ''abe'')" by code_simp
  have b2: "score_candidates (const_libs 65) [ustr_of ''jon''] [ustr_of ''abe''] (ustr_of ''Abe'')
        (ustr_of ''abe'') [ustr_of ''Jon''] [] = Inr [(ustr_of ''Jon'', 65)]" by code_simp
  have b3: "best_of [(ustr_of ''Jon'', 65)] = (ustr_of ''Jon'', 65)"
    by (simp add: best_of_def sort_reverse_def)
  have c1: "extract_first_name (const_libs 64) (ustr_of ''Abe'') = Inr (ustr_of ''abe'')" by code_simp
  have c2: "score_candidates (const_libs 64) [ustr_of ''jon''] [ustr_of ''abe''] (ustr_of ''Abe'')
        (ustr_of ''abe'') [ustr_of ''Jon''] [] = Inr [(ustr_of ''Jon'', 64)]" by code_simp
  have c3: "best_of [(ustr_of ''Jon'', 64)] = (ustr_of ''Jon'', 64)"
    by (simp add: best_of_def sort_reverse_def)
  have A: "\<exists>m s row. match_row (const_libs 90) (ustr_of ''elche-elche'') [ustr_of ''Jon''] [ustr_of ''jon'']
          [ustr_of ''abe''] (ustr_of ''Abe'') ({}, {}, []) = Inr (m, s, [row])
        \<and> type_value row = Match_exact \<and> match_valide row = Glyph_ok
        \<and> nom_transfermarkt row = ustr_of ''Jon'' \<and> m = {ustr_of ''Jon''}"
    using classification_thresholds [OF a1 a2 a3, of "ustr_of ''elche-elche''" "{}" "{}" "[]"]
    by fastforce
  have B: "\<exists>m s row. match_row (const_libs 65) (ustr_of ''elche-elche'') [ustr_of ''Jon''] [ustr_of ''jon'']
          [ustr_of ''abe''] (ustr_of ''Abe'') ({}, {}, []) = Inr (m, s, [row])
        \<and> type_value row = Match_partiel \<and> match_valide row = Glyph_warn
        \<and> nom_transfermarkt row = ustr_of ''Jon'' \<and> m = {ustr_of ''Jon''}"
    using classification_thresholds [OF b1 b2 b3, of "ustr_of ''elche-elche''" "{}" "{}" "[]"]
    by fastforce
  have C: "\<exists>m s row. match_row (const_libs 64) (ustr_of ''elche-elche'') [ustr_of ''Jon''] [ustr_of ''jon'']
          [ustr_of ''abe''] (ustr_of ''Abe'') ({}, {}, []) = Inr (m, s, [row])
        \<and> type_value row = Non_trouve \<and> match_valide row = Glyph_ko
        \<and> nom_transfermarkt row = [] \<and> m = {}"
    using classification_thresholds [OF c1 c2 c3, of "ustr_of ''elche-elche''" "{}" "{}" "[]"]
    by fastforce
  from a1 a2 a3 A b1 b2 b3 B c1 c2 c3 C show ?thesis by (simp only: simp_thms)
qed

text \<open>
  C6, the selection. After the scores of a user name are computed, in the order of the
  provider's list, the pair selected has the greatest score, and every candidate
  before it in the provider's list has a strictly smaller score: among equal greatest
  scores the first of the list is selected.
\<close>

theorem best_candidate_selection:
  assumes "score_candidates L all_transfer_firsts all_sheet_firsts name player_first tm_players [] = Inr scores"
    and "tm_players \<noteq> []"
  shows "\<exists>i<length tm_players.
           best_of scores = scores ! i \<and> fst (scores ! i) = tm_players ! i
           \<and> (\<forall>j<length tm_players. snd (scores ! j) \<le> snd (scores ! i))
           \<and> (\<forall>j<i. snd (scores ! j) < snd (scores ! i))"
proof -
  from score_candidates_InrD [OF assms(1)] have m: "map fst scores = tm_players" by simp
  then have len: "length scores = length tm_players" by (metis length_map)
  with assms(2) have "scores \<noteq> []" by auto
  from best_of_first_max [OF this] obtain i where i: "i < length scores" "best_of scores = scores ! i"
    "\<forall>j<length scores. snd (scores ! j) \<le> snd (scores ! i)" "\<forall>j<i. snd (scores ! j) < snd (scores ! i)"
    by blast
  have "fst (scores ! i) = tm_players ! i" using m i(1) by (metis nth_map)
  with i len show ?thesis by auto
qed

theorem best_candidate_selection_witness:
  "score_candidates (const_libs 70) [ustr_of ''abe'', ustr_of ''jon''] [ustr_of ''zed'']
      (ustr_of ''Zed'') (ustr_of ''zed'') [ustr_of ''Abe'', ustr_of ''Jon''] []
     = Inr [(ustr_of ''Abe'', 70), (ustr_of ''Jon'', 70)]
   \<and> [ustr_of ''Abe'', ustr_of ''Jon''] \<noteq> []
   \<and> best_of [(ustr_of ''Abe'', 70), (ustr_of ''Jon'', 70)] = (ustr_of ''Abe'', 70)"
proof -
  have h1: "score_candidates (const_libs 70) [ustr_of ''abe'', ustr_of ''jon''] [ustr_of ''zed'']
      (ustr_of ''Zed'') (ustr_of ''zed'') [ustr_of ''Abe'', ustr_of ''Jon''] []
     = Inr [(ustr_of ''Abe'', 70), (ustr_of ''Jon'', 70)]" by code_simp
  have h2: "[ustr_of ''Abe'', ustr_of ''Jon''] \<noteq> []" by simp
  from best_candidate_selection [OF h1 h2] obtain i
    where i: "i < length [ustr_of ''Abe'', ustr_of ''Jon'']"
    and b: "best_of [(ustr_of ''Abe'', 70), (ustr_of ''Jon'', 70)]
              = [(ustr_of ''Abe'', 70), (ustr_of ''Jon'', 70::real)] ! i"
    and f: "\<forall>j<i. snd ([(ustr_of ''Abe'', 70), (ustr_of ''Jon'', 70::real)] ! j)
                  < snd ([(ustr_of ''Abe'', 70), (ustr_of ''Jon'', 70::real)] ! i)"
    by blast
  have "i = 0"
  proof (rule ccontr)
    assume "i \<noteq> 0"
    with i have "i = 1" by simp
    with f show False by (auto dest!: spec [of _ "0::nat"])
  qed
  with b have "best_of [(ustr_of ''Abe'', 70), (ustr_of ''Jon'', 70)] = (ustr_of ''Abe'', 70)" by simp
  with h1 h2 show ?thesis by (simp only: simp_thms)
qed

subsection \<open>The rows of one club and the report\<close>

lemma outcome_row_fields:
  "nom_joueur (outcome_row slug n b) = n" "club_attribue (outcome_row slug n b) = slug"
  "is_accepted_row (outcome_row slug n b) \<longleftrightarrow> 65 \<le> snd b"
  "\<not> is_new_player_row (outcome_row slug n b)"
  "65 \<le> snd b \<Longrightarrow> nom_transfermarkt (outcome_row slug n b) = fst b"
  by (auto simp: outcome_row_def is_accepted_row_def is_new_player_row_def)

lemma new_player_row_fields:
  "nom_joueur (new_player_row slug t) = []" "club_attribue (new_player_row slug t) = slug"
  "nom_transfermarkt (new_player_row slug t) = t"
  "\<not> is_accepted_row (new_player_row slug t)" "is_new_player_row (new_player_row slug t)"
  by (simp_all add: new_player_row_def is_accepted_row_def is_new_player_row_def)

lemma accepted_in_block:
  "filter (\<lambda>r. is_accepted_row r \<and> nom_transfermarkt r = e) (club_block L slug names tm)
   = map (\<lambda>n. outcome_row slug n (best_candidate L tm names n))
       (filter (\<lambda>n. 65 \<le> snd (best_candidate L tm names n) \<and> fst (best_candidate L tm names n) = e) names)"
proof -
  have 1: "filter (\<lambda>r. is_accepted_row r \<and> nom_transfermarkt r = e)
             (map (new_player_row slug) xs) = []" for xs
    by (induction xs) (simp_all add: new_player_row_fields)
  have 2: "filter (\<lambda>r. is_accepted_row r \<and> nom_transfermarkt r = e)
             (map (\<lambda>n. outcome_row slug n (best_candidate L tm names n)) ns)
           = map (\<lambda>n. outcome_row slug n (best_candidate L tm names n))
               (filter (\<lambda>n. 65 \<le> snd (best_candidate L tm names n) \<and> fst (best_candidate L tm names n) = e) ns)" for ns
    by (induction ns) (auto simp: outcome_row_fields)
  show ?thesis by (simp add: club_block_def 1 2)
qed

lemma new_in_block:
  "filter (\<lambda>r. is_new_player_row r \<and> nom_transfermarkt r = e) (club_block L slug names tm)
   = map (new_player_row slug) (filter (\<lambda>t. t \<notin> claimed L tm names \<and> t = e) tm)"
proof -
  have 1: "filter (\<lambda>r. is_new_player_row r \<and> nom_transfermarkt r = e)
             (map (\<lambda>n. outcome_row slug n (best_candidate L tm names n)) ns) = []" for ns
    by (induction ns) (simp_all add: outcome_row_fields)
  have 2: "filter (\<lambda>r. is_new_player_row r \<and> nom_transfermarkt r = e)
             (map (new_player_row slug) xs)
           = map (new_player_row slug) (filter (\<lambda>t. t = e) xs)" for xs
    by (induction xs) (auto simp: new_player_row_fields)
  show ?thesis by (simp add: club_block_def 1 2 conj_commute)
qed

lemma claimed_iff:
  "e \<in> claimed L tm names \<longleftrightarrow>
     filter (\<lambda>n. 65 \<le> snd (best_candidate L tm names n) \<and> fst (best_candidate L tm names n) = e) names \<noteq> []"
  by (auto simp: claimed_def filter_empty_conv)

lemma report_of_Cons:
  "report_of L df ((slug, club_id) # catalog) (r # rosters)
   = club_rows L df slug r @ report_of L df catalog rosters"
  by (simp add: report_of_def)

lemma club_loop_report:
  assumes "club_loop L df es w results = (Inr rows, w')"
  shows "rows = results @ report_of L df (map snd es) (rosters_seen df es w)
         \<and> length (rosters_seen df es w) = length es"
  using assms
proof (induction es arbitrary: w results)
  case Nil
  then show ?case by (simp add: report_of_def)
next
  case (Cons e es)
  obtain i slug club_id where e: "e = (i, slug, club_id)" by (cases e)
  show ?case
  proof (cases "filter (\<lambda>r. snd r = slug) df = []")
    case True
    with Cons.prems have "club_loop L df es w results = (Inr rows, w')" by (simp add: e)
    from Cons.IH [OF this] True show ?thesis
      by (simp add: e report_of_Cons club_rows_def)
  next
    case False
    obtain res w1 where f: "fetch_or_load_players club_id slug w = (res, w1)"
      by (cases "fetch_or_load_players club_id slug w")
    show ?thesis
    proof (cases res)
      case (Inl err)
      with Cons.prems False f show ?thesis by (simp add: e)
    next
      case (Inr externals)
      show ?thesis
      proof (cases "externals = []")
        case True
        with Cons.prems False f Inr have "club_loop L df es w1 results = (Inr rows, w')"
          by (simp add: e)
        from Cons.IH [OF this] True False f Inr show ?thesis
          by (simp add: e report_of_Cons club_rows_def)
      next
        case ne: False
        define w2 where "w2 = (if i = PAUSE_AFTER then sleep PAUSE_SECONDS (sleep 1 w1) else sleep 1 w1)"
        obtain rc where rc: "reconcile_club L slug (map fst (filter (\<lambda>r. snd r = slug) df)) externals results = rc"
          by simp
        show ?thesis
        proof (cases rc)
          case (Inl err)
          with Cons.prems False f Inr ne rc show ?thesis by (simp add: e Let_def)
        next
          case (Inr results')
          with Cons.prems False f \<open>res = Inr externals\<close> ne rc
          have loop: "club_loop L df es w2 results' = (Inr rows, w')"
            by (simp add: e Let_def w2_def)
          from rc Inr have "results' = results @ club_block L slug (map fst (filter (\<lambda>r. snd r = slug) df)) externals"
            by (simp add: reconcile_club_Inr)
          with Cons.IH [OF loop] False f \<open>res = Inr externals\<close> ne show ?thesis
            by (simp add: e report_of_Cons club_rows_def w2_def)
        qed
      qed
    qed
  qed
qed

lemma club_block_club: "r \<in> set (club_block L slug users externals) \<Longrightarrow> club_attribue r = slug"
  by (auto simp: club_block_def outcome_row_fields new_player_row_fields)

lemma club_rows_club: "r \<in> set (club_rows L df slug roster) \<Longrightarrow> club_attribue r = slug"
  by (auto simp: club_rows_def Let_def club_block_club split: option.splits if_splits)

lemma report_of_club:
  assumes "r \<in> set (report_of L df catalog rosters)"
  shows "club_attribue r \<in> fst ` set catalog"
proof -
  from assms obtain slug club_id roster where z: "((slug, club_id), roster) \<in> set (zip catalog rosters)"
    and r: "r \<in> set (club_rows L df slug roster)"
    by (auto simp: report_of_def)
  from z have "(slug, club_id) \<in> set catalog" by (rule set_zip_leftD)
  with club_rows_club [OF r] show ?thesis by force
qed

lemma club_loop_cong:
  assumes "\<forall>e\<in>set es. filter (\<lambda>r. snd r = fst (snd e)) df = filter (\<lambda>r. snd r = fst (snd e)) df'"
  shows "club_loop L df es w results = club_loop L df' es w results"
  using assms
proof (induction es arbitrary: w results)
  case Nil
  then show ?case by simp
next
  case (Cons e es)
  obtain i slug club_id where e: "e = (i, slug, club_id)" by (cases e)
  from Cons.prems have same: "filter (\<lambda>r. snd r = slug) df = filter (\<lambda>r. snd r = slug) df'"
    by (simp add: e)
  from Cons.prems have rest: "\<forall>e\<in>set es. filter (\<lambda>r. snd r = fst (snd e)) df = filter (\<lambda>r. snd r = fst (snd e)) df'"
    by simp
  show ?case
    unfolding e club_loop.simps same Cons.IH [OF rest] ..
qed

lemma dropna_filter:
  "dropna (filter (\<lambda>r. team_slug r \<in> Some ` S) df) = filter (\<lambda>r. snd r \<in> S) (dropna df)"
  by (induction df) (auto split: option.splits)

lemma set_enumerate_slug:
  assumes "e \<in> set (enumerate n xs)"
  shows "fst (snd e) \<in> fst ` set xs"
proof -
  from assms have "snd e \<in> set (map snd (enumerate n xs))" by (simp del: map_snd_enumerate)
  then have "snd e \<in> set xs" by (simp only: map_snd_enumerate)
  then show ?thesis by (rule imageI)
qed

lemma filter_filter_mem:
  "s \<in> S \<Longrightarrow> filter (\<lambda>r. snd r = s) (filter (\<lambda>r. snd r \<in> S) xs) = filter (\<lambda>r. snd r = s) xs"
  by (induction xs) auto

lemma verifier_effectifs_known_slugs:
  "verifier_effectifs L (filter (\<lambda>r. team_slug r \<in> Some ` fst ` set CLUB_SLUG_TO_ID) df) w
     = verifier_effectifs L df w"
proof -
  have "\<forall>e\<in>set (enumerate 1 CLUB_SLUG_TO_ID).
      filter (\<lambda>r. snd r = fst (snd e)) (filter (\<lambda>r. snd r \<in> fst ` set CLUB_SLUG_TO_ID) (dropna df))
      = filter (\<lambda>r. snd r = fst (snd e)) (dropna df)"
  proof
    fix e assume "e \<in> set (enumerate 1 CLUB_SLUG_TO_ID)"
    then have "fst (snd e) \<in> fst ` set CLUB_SLUG_TO_ID" by (rule set_enumerate_slug)
    then show "filter (\<lambda>r. snd r = fst (snd e)) (filter (\<lambda>r. snd r \<in> fst ` set CLUB_SLUG_TO_ID) (dropna df))
      = filter (\<lambda>r. snd r = fst (snd e)) (dropna df)"
      by (rule filter_filter_mem)
  qed
  then have "club_loop L (filter (\<lambda>r. snd r \<in> fst ` set CLUB_SLUG_TO_ID) (dropna df))
               (enumerate 1 CLUB_SLUG_TO_ID) w []
             = club_loop L (dropna df) (enumerate 1 CLUB_SLUG_TO_ID) w []"
    by (rule club_loop_cong)
  then show ?thesis
    unfolding verifier_effectifs_def dropna_filter .
qed

lemma verifier_effectifs_clubs:
  assumes "verifier_effectifs L df w = (Inr rows, w')"
  shows "\<forall>r\<in>set rows. club_attribue r \<in> fst ` set CLUB_SLUG_TO_ID"
proof
  fix r assume r: "r \<in> set rows"
  from assms have "club_loop L (dropna df) (enumerate 1 CLUB_SLUG_TO_ID) w [] = (Inr rows, w')"
    unfolding verifier_effectifs_def .
  from club_loop_report [OF this]
  have "rows = report_of L (dropna df) CLUB_SLUG_TO_ID
      (rosters_seen (dropna df) (enumerate 1 CLUB_SLUG_TO_ID) w)"
    unfolding map_snd_enumerate by simp
  with r show "club_attribue r \<in> fst ` set CLUB_SLUG_TO_ID"
    by (simp only: report_of_club)
qed

subsection \<open>Claims of one club\<close>

text \<open>
  C2, as the spec states it, fails: nothing excludes an external name that an earlier
  row has matched. A table that lists the same player twice claims the provider's name
  twice: two accepted rows of the club have the same name found.
\<close>

theorem one_claim_per_external_name_counterexample:
  "fst (verifier_effectifs ascii_libs
          (sheet [(''Jon Smith'', ''elche-elche''), (''Jon Smith'', ''elche-elche'')])
          (caches_world [(1531, [ustr_of ''Jon Smith''])]))
   = Inr [\<lparr>nom_joueur = ustr_of ''Jon Smith'', club_attribue = ustr_of ''elche-elche'',
            nom_transfermarkt = ustr_of ''Jon Smith'', similarite = Some 100,
            match_valide = Glyph_ok, type_value = Match_exact\<rparr>,
          \<lparr>nom_joueur = ustr_of ''Jon Smith'', club_attribue = ustr_of ''elche-elche'',
            nom_transfermarkt = ustr_of ''Jon Smith'', similarite = Some 100,
            match_valide = Glyph_ok, type_value = Match_exact\<rparr>]
   \<and> length (filter (\<lambda>r. is_accepted_row r \<and> club_attribue r = ustr_of ''elche-elche''
                          \<and> nom_transfermarkt r = ustr_of ''Jon Smith'')
         [\<lparr>nom_joueur = ustr_of ''Jon Smith'', club_attribue = ustr_of ''elche-elche'',
            nom_transfermarkt = ustr_of ''Jon Smith'', similarite = Some 100,
            match_valide = Glyph_ok, type_value = Match_exact\<rparr>,
          \<lparr>nom_joueur = ustr_of ''Jon Smith'', club_attribue = ustr_of ''elche-elche'',
            nom_transfermarkt = ustr_of ''Jon Smith'', similarite = Some 100,
            match_valide = Glyph_ok, type_value = Match_exact\<rparr>]) = 2"
  by code_simp

text \<open>
  C2, amended: in the reconciliation of one club every user name gets one outcome row,
  in order, before the rows of the unclaimed names; the name found of an accepted row
  is a name of the provider's list; and for every external name the number of accepted
  rows that have it is at most the number of user names of the club.
\<close>

theorem accepted_targets_of_club:
  assumes "reconcile_club L slug names tm_players results = Inr out"
  shows "\<exists>rows news. out = results @ rows @ news
           \<and> map nom_joueur rows = names
           \<and> (\<forall>r\<in>set news. is_new_player_row r)
           \<and> (\<forall>r\<in>set rows. \<not> is_new_player_row r
                 \<and> (is_accepted_row r \<longrightarrow> nom_transfermarkt r \<in> set tm_players))
           \<and> (\<forall>e. length (filter (\<lambda>r. is_accepted_row r \<and> nom_transfermarkt r = e) (rows @ news))
                   \<le> length names)"
proof -
  define rows where "rows = map (\<lambda>n. outcome_row slug n (best_candidate L tm_players names n)) names"
  define news where "news = map (new_player_row slug)
      (filter (\<lambda>t. t \<notin> claimed L tm_players names) tm_players)"
  have blk: "club_block L slug names tm_players = rows @ news"
    by (simp add: club_block_def rows_def news_def)
  have out: "out = results @ rows @ news"
    using reconcile_club_Inr [OF assms] blk by simp
  from reconcile_club_InrD [OF assms] obtain tf where "first_names L tm_players = Inr tf" by blast
  from first_names_Inr [OF this]
  have tm: "\<forall>c\<in>set tm_players. extract_first_name L c = Inr (first_token L c)" by simp
  have 1: "map nom_joueur rows = names"
    by (simp add: rows_def outcome_row_fields comp_def)
  have 2: "\<forall>r\<in>set news. is_new_player_row r"
    by (auto simp: news_def new_player_row_fields)
  have 3: "\<forall>r\<in>set rows. \<not> is_new_player_row r
      \<and> (is_accepted_row r \<longrightarrow> nom_transfermarkt r \<in> set tm_players)"
    using best_candidate_accepted [OF tm] by (auto simp: rows_def outcome_row_fields)
  have 4: "length (filter (\<lambda>r. is_accepted_row r \<and> nom_transfermarkt r = e) (rows @ news))
      \<le> length names" for e
    unfolding blk [symmetric] accepted_in_block by simp
  from out 1 2 3 4 show ?thesis by blast
qed

theorem accepted_targets_of_club_witness:
  "reconcile_club ascii_libs (ustr_of ''elche-elche'') [ustr_of ''Jon Smith'', ustr_of ''Abe'']
      [ustr_of ''Jon Smith'', ustr_of ''Guy''] []
   = Inr [\<lparr>nom_joueur = ustr_of ''Jon Smith'', club_attribue = ustr_of ''elche-elche'',
            nom_transfermarkt = ustr_of ''Jon Smith'', similarite = Some 100,
            match_valide = Glyph_ok, type_value = Match_exact\<rparr>,
          \<lparr>nom_joueur = ustr_of ''Abe'', club_attribue = ustr_of ''elche-elche'',
            nom_transfermarkt = [], similarite = None,
            match_valide = Glyph_ko, type_value = Non_trouve\<rparr>,
          new_player_row (ustr_of ''elche-elche'') (ustr_of ''Guy'')]
   \<and> (\<exists>rows news.
         [\<lparr>nom_joueur = ustr_of ''Jon Smith'', club_attribue = ustr_of ''elche-elche'',
            nom_transfermarkt = ustr_of ''Jon Smith'', similarite = Some 100,
            match_valide = Glyph_ok, type_value = Match_exact\<rparr>,
          \<lparr>nom_joueur = ustr_of ''Abe'', club_attribue = ustr_of ''elche-elche'',
            nom_transfermarkt = [], similarite = None,
            match_valide = Glyph_ko, type_value = Non_trouve\<rparr>,
          new_player_row (ustr_of ''elche-elche'') (ustr_of ''Guy'')] = [] @ rows @ news
         \<and> map nom_joueur rows = [ustr_of ''Jon Smith'', ustr_of ''Abe'']
         \<and> (\<forall>r\<in>set news. is_new_player_row r)
         \<and> (\<forall>r\<in>set rows. \<not> is_new_player_row r
               \<and> (is_accepted_row r \<longrightarrow> nom_transfermarkt r \<in> set [ustr_of ''Jon Smith'', ustr_of ''Guy'']))
         \<and> (\<forall>e. length (filter (\<lambda>r. is_accepted_row r \<and> nom_transfermarkt r = e) (rows @ news))
                 \<le> length [ustr_of ''Jon Smith'', ustr_of ''Abe'']))"
proof -
  have h: "reconcile_club ascii_libs (ustr_of ''elche-elche'') [ustr_of ''Jon Smith'', ustr_of ''Abe'']
      [ustr_of ''Jon Smith'', ustr_of ''Guy''] []
   = Inr [\<lparr>nom_joueur = ustr_of ''Jon Smith'', club_attribue = ustr_of ''elche-elche'',
            nom_transfermarkt = ustr_of ''Jon Smith'', similarite = Some 100,
            match_valide = Glyph_ok, type_value = Match_exact\<rparr>,
          \<lparr>nom_joueur = ustr_of ''Abe'', club_attribue = ustr_of ''elche-elche'',
            nom_transfermarkt = [], similarite = None,
            match_valide = Glyph_ko, type_value = Non_trouve\<rparr>,
          new_player_row (ustr_of ''elche-elche'') (ustr_of ''Guy'')]"
    by code_simp
  from accepted_targets_of_club [OF h] h show ?thesis by (rule_tac conjI)
qed

text \<open>
  C3, as the spec states it, fails: a name that the provider's list holds twice and
  that no row claims is reported twice, once for each occurrence.
\<close>

theorem every_external_name_once_counterexample:
  "fst (verifier_effectifs ascii_libs (sheet [(''Jon'', ''elche-elche'')])
          (caches_world [(1531, [ustr_of ''Abe'', ustr_of ''Abe''])]))
   = Inr [\<lparr>nom_joueur = ustr_of ''Jon'', club_attribue = ustr_of ''elche-elche'',
            nom_transfermarkt = [], similarite = None,
            match_valide = Glyph_ko, type_value = Non_trouve\<rparr>,
          new_player_row (ustr_of ''elche-elche'') (ustr_of ''Abe''),
          new_player_row (ustr_of ''elche-elche'') (ustr_of ''Abe'')]
   \<and> length (filter (\<lambda>r. (is_accepted_row r \<or> is_new_player_row r)
                          \<and> nom_transfermarkt r = ustr_of ''Abe'')
         [\<lparr>nom_joueur = ustr_of ''Jon'', club_attribue = ustr_of ''elche-elche'',
            nom_transfermarkt = [], similarite = None,
            match_valide = Glyph_ko, type_value = Non_trouve\<rparr>,
          new_player_row (ustr_of ''elche-elche'') (ustr_of ''Abe''),
          new_player_row (ustr_of ''elche-elche'') (ustr_of ''Abe'')]) = 2"
  by code_simp

text \<open>
  C3, amended: in the reconciliation of one club every name of the provider's list is
  reported at least once and never on both sides: either no accepted row has it and it
  has one "new player" row for each of its occurrences in the provider's list, or at
  least one accepted row has it and no "new player" row does.
\<close>

theorem every_external_name_reported:
  assumes "reconcile_club L slug names tm_players results = Inr out"
    and "e \<in> set tm_players"
  shows "\<exists>block. out = results @ block
           \<and> (let accepted = length (filter (\<lambda>r. is_accepted_row r \<and> nom_transfermarkt r = e) block);
                   new = length (filter (\<lambda>r. is_new_player_row r \<and> nom_transfermarkt r = e) block)
               in (accepted = 0 \<and> new = count_list tm_players e \<and> 1 \<le> new) \<or> (1 \<le> accepted \<and> new = 0))"
proof -
  have out: "out = results @ club_block L slug names tm_players"
    using assms(1) by (rule reconcile_club_Inr)
  have cnt: "1 \<le> count_list tm_players e" using assms(2)
    by (metis One_nat_def Suc_leI count_list_0_iff neq0_conv)
  have "(let accepted = length (filter (\<lambda>r. is_accepted_row r \<and> nom_transfermarkt r = e)
                                  (club_block L slug names tm_players));
             new = length (filter (\<lambda>r. is_new_player_row r \<and> nom_transfermarkt r = e)
                                  (club_block L slug names tm_players))
         in (accepted = 0 \<and> new = count_list tm_players e \<and> 1 \<le> new) \<or> (1 \<le> accepted \<and> new = 0))"
  proof (cases "e \<in> claimed L tm_players names")
    case True
    then have "filter (\<lambda>t. t \<notin> claimed L tm_players names \<and> t = e) tm_players = []"
      by (auto simp: filter_empty_conv)
    moreover from True have "1 \<le> length (filter (\<lambda>n. 65 \<le> snd (best_candidate L tm_players names n)
        \<and> fst (best_candidate L tm_players names n) = e) names)"
      unfolding claimed_iff by (simp add: Suc_le_eq)
    ultimately show ?thesis by (simp add: accepted_in_block new_in_block Let_def)
  next
    case False
    then have "filter (\<lambda>t. t \<notin> claimed L tm_players names \<and> t = e) tm_players
        = filter ((=) e) tm_players"
      by (intro filter_cong) auto
    moreover from False have "filter (\<lambda>n. 65 \<le> snd (best_candidate L tm_players names n)
        \<and> fst (best_candidate L tm_players names n) = e) names = []"
      unfolding claimed_iff by simp
    ultimately show ?thesis using cnt
      by (simp add: accepted_in_block new_in_block Let_def count_list_eq_length_filter)
  qed
  with out show ?thesis by blast
qed

theorem every_external_name_reported_witness:
  "reconcile_club ascii_libs (ustr_of ''elche-elche'') [ustr_of ''Jon'']
      [ustr_of ''Abe'', ustr_of ''Abe''] []
   = Inr [\<lparr>nom_joueur = ustr_of ''Jon'', club_attribue = ustr_of ''elche-elche'',
            nom_transfermarkt = [], similarite = None,
            match_valide = Glyph_ko, type_value = Non_trouve\<rparr>,
          new_player_row (ustr_of ''elche-elche'') (ustr_of ''Abe''),
          new_player_row (ustr_of ''elche-elche'') (ustr_of ''Abe'')]
   \<and> ustr_of ''Abe'' \<in> set [ustr_of ''Abe'', ustr_of ''Abe'']
   \<and> (\<exists>block.
         [\<lparr>nom_joueur = ustr_of ''Jon'', club_attribue = ustr_of ''elche-elche'',
            nom_transfermarkt = [], similarite = None,
            match_valide = Glyph_ko, type_value = Non_trouve\<rparr>,
          new_player_row (ustr_of ''elche-elche'') (ustr_of ''Abe''),
          new_player_row (ustr_of ''elche-elche'') (ustr_of ''Abe'')] = [] @ block
         \<and> (let accepted = length (filter (\<lambda>r. is_accepted_row r \<and> nom_transfermarkt r = ustr_of ''Abe'') block);
                 new = length (filter (\<lambda>r. is_new_player_row r \<and> nom_transfermarkt r = ustr_of ''Abe'') block)
             in (accepted = 0 \<and> new = count_list [ustr_of ''Abe'', ustr_of ''Abe''] (ustr_of ''Abe'') \<and> 1 \<le> new)
                \<or> (1 \<le> accepted \<and> new = 0)))"
proof -
  have h: "reconcile_club ascii_libs (ustr_of ''elche-elche'') [ustr_of ''Jon'']
      [ustr_of ''Abe'', ustr_of ''Abe''] []
   = Inr [\<lparr>nom_joueur = ustr_of ''Jon'', club_attribue = ustr_of ''elche-elche'',
            nom_transfermarkt = [], similarite = None,
            match_valide = Glyph_ko, type_value = Non_trouve\<rparr>,
          new_player_row (ustr_of ''elche-elche'') (ustr_of ''Abe''),
          new_player_row (ustr_of ''elche-elche'') (ustr_of ''Abe'')]"
    by code_simp
  have m: "ustr_of ''Abe'' \<in> set [ustr_of ''Abe'', ustr_of ''Abe'']" by simp
  from every_external_name_reported [OF h m] h m show ?thesis by (intro conjI)
qed

subsection \<open>The whole report\<close>

text \<open>
  C7, the order of the report. A run that returns gives the report of 4.4 for the
  lists the provider client returned along it: the clubs in the order of the catalog;
  for each club no row when the table has no row for it or when the client returned
  the empty list, and else the outcome rows in the order of the club's rows in the
  table, then the unclaimed names in the order of the provider's list.
\<close>

theorem report_order:
  assumes "verifier_effectifs L df w = (Inr rows, w')"
  shows "rows = report_of L (dropna df) CLUB_SLUG_TO_ID
                  (rosters_seen (dropna df) (enumerate 1 CLUB_SLUG_TO_ID) w)
         \<and> length (rosters_seen (dropna df) (enumerate 1 CLUB_SLUG_TO_ID) w) = length CLUB_SLUG_TO_ID"
  using club_loop_report [of L "dropna df" "enumerate 1 CLUB_SLUG_TO_ID" w "[]" rows w'] assms
  by (simp add: verifier_effectifs_def map_snd_enumerate)

theorem report_order_witness:
  "fst (verifier_effectifs ascii_libs
          (sheet [(''Jon'', ''villarreal-villarreal''), (''Abe'', ''elche-elche''),
                  (''Zed'', ''other-club''), (''Bob'', ''girona-girona'')])
          (caches_world [(1531, [ustr_of ''Abe'', ustr_of ''Cid'']), (1050, [ustr_of ''Jon''])]))
   = Inr [\<lparr>nom_joueur = ustr_of ''Abe'', club_attribue = ustr_of ''elche-elche'',
            nom_transfermarkt = ustr_of ''Abe'', similarite = Some 100,
            match_valide = Glyph_ok, type_value = Match_exact\<rparr>,
          new_player_row (ustr_of ''elche-elche'') (ustr_of ''Cid''),
          \<lparr>nom_joueur = ustr_of ''Jon'', club_attribue = ustr_of ''villarreal-villarreal'',
            nom_transfermarkt = ustr_of ''Jon'', similarite = Some 100,
            match_valide = Glyph_ok, type_value = Match_exact\<rparr>]
   \<and> [\<lparr>nom_joueur = ustr_of ''Abe'', club_attribue = ustr_of ''elche-elche'',
            nom_transfermarkt = ustr_of ''Abe'', similarite = Some 100,
            match_valide = Glyph_ok, type_value = Match_exact\<rparr>,
          new_player_row (ustr_of ''elche-elche'') (ustr_of ''Cid''),
          \<lparr>nom_joueur = ustr_of ''Jon'', club_attribue = ustr_of ''villarreal-villarreal'',
            nom_transfermarkt = ustr_of ''Jon'', similarite = Some 100,
            match_valide = Glyph_ok, type_value = Match_exact\<rparr>]
     = report_of ascii_libs
         (dropna (sheet [(''Jon'', ''villarreal-villarreal''), (''Abe'', ''elche-elche''),
                  (''Zed'', ''other-club''), (''Bob'', ''girona-girona'')]))
         CLUB_SLUG_TO_ID
         (rosters_seen
            (dropna (sheet [(''Jon'', ''villarreal-villarreal''), (''Abe'', ''elche-elche''),
                  (''Zed'', ''other-club''), (''Bob'', ''girona-girona'')]))
            (enumerate 1 CLUB_SLUG_TO_ID)
            (caches_world [(1531, [ustr_of ''Abe'', ustr_of ''Cid'']), (1050, [ustr_of ''Jon''])]))
   \<and> length (rosters_seen
            (dropna (sheet [(''Jon'', ''villarreal-villarreal''), (''Abe'', ''elche-elche''),
                  (''Zed'', ''other-club''), (''Bob'', ''girona-girona'')]))
            (enumerate 1 CLUB_SLUG_TO_ID)
            (caches_world [(1531, [ustr_of ''Abe'', ustr_of ''Cid'']), (1050, [ustr_of ''Jon''])]))
     = length CLUB_SLUG_TO_ID"
proof -
  define df where "df = sheet [(''Jon'', ''villarreal-villarreal''), (''Abe'', ''elche-elche''),
                  (''Zed'', ''other-club''), (''Bob'', ''girona-girona'')]"
  define w where "w = caches_world [(1531, [ustr_of ''Abe'', ustr_of ''Cid'']), (1050, [ustr_of ''Jon''])]"
  define rows where "rows = [\<lparr>nom_joueur = ustr_of ''Abe'', club_attribue = ustr_of ''elche-elche'',
            nom_transfermarkt = ustr_of ''Abe'', similarite = Some 100,
            match_valide = Glyph_ok, type_value = Match_exact\<rparr>,
          new_player_row (ustr_of ''elche-elche'') (ustr_of ''Cid''),
          \<lparr>nom_joueur = ustr_of ''Jon'', club_attribue = ustr_of ''villarreal-villarreal'',
            nom_transfermarkt = ustr_of ''Jon'', similarite = Some 100,
            match_valide = Glyph_ok, type_value = Match_exact\<rparr>]"
  have h: "fst (verifier_effectifs ascii_libs df w) = Inr rows"
    unfolding df_def w_def rows_def by code_simp
  then have "verifier_effectifs ascii_libs df w = (Inr rows, snd (verifier_effectifs ascii_libs df w))"
    by (metis prod.collapse)
  from report_order [OF this]
  have r: "rows = report_of ascii_libs (dropna df) CLUB_SLUG_TO_ID
             (rosters_seen (dropna df) (enumerate 1 CLUB_SLUG_TO_ID) w)"
    and l: "length (rosters_seen (dropna df) (enumerate 1 CLUB_SLUG_TO_ID) w) = length CLUB_SLUG_TO_ID"
    by blast+
  from h r l show ?thesis
    unfolding df_def w_def rows_def by (intro conjI)
qed

text \<open>
  C10, rows of unknown clubs. Removing from the table the rows whose slug is not a
  slug of the catalog changes nothing, neither the report nor an error nor the world;
  every row of a report has a slug of the catalog as its club; the catalog has 20
  entries.
\<close>

theorem unknown_slugs_dropped:
  "verifier_effectifs L (filter (\<lambda>r. team_slug r \<in> Some ` fst ` set CLUB_SLUG_TO_ID) df) w
     = verifier_effectifs L df w
   \<and> (\<forall>rows w'. verifier_effectifs L df w = (Inr rows, w')
        \<longrightarrow> (\<forall>r\<in>set rows. club_attribue r \<in> fst ` set CLUB_SLUG_TO_ID))
   \<and> length CLUB_SLUG_TO_ID = 20"
proof -
  have "length CLUB_SLUG_TO_ID = 20" unfolding CLUB_SLUG_TO_ID_def by simp
  with verifier_effectifs_known_slugs [of L df w] verifier_effectifs_clubs [of L df w]
  show ?thesis by blast
qed

theorem unknown_slugs_dropped_witness:
  "verifier_effectifs ascii_libs
     (filter (\<lambda>r. team_slug r \<in> Some ` fst ` set CLUB_SLUG_TO_ID)
        (sheet [(''Zed'', ''other-club''), (''Abe'', ''elche-elche'')]))
     (caches_world [(1531, [ustr_of ''Abe''])])
   = verifier_effectifs ascii_libs (sheet [(''Zed'', ''other-club''), (''Abe'', ''elche-elche'')])
       (caches_world [(1531, [ustr_of ''Abe''])])
   \<and> fst (verifier_effectifs ascii_libs (sheet [(''Zed'', ''other-club''), (''Abe'', ''elche-elche'')])
       (caches_world [(1531, [ustr_of ''Abe''])]))
     = Inr [\<lparr>nom_joueur = ustr_of ''Abe'', club_attribue = ustr_of ''elche-elche'',
            nom_transfermarkt = ustr_of ''Abe'', similarite = Some 100,
            match_valide = Glyph_ok, type_value = Match_exact\<rparr>]
   \<and> list_all (\<lambda>r. club_attribue r \<in> fst ` set CLUB_SLUG_TO_ID)
       [\<lparr>nom_joueur = ustr_of ''Abe'', club_attribue = ustr_of ''elche-elche'',
            nom_transfermarkt = ustr_of ''Abe'', similarite = Some 100,
            match_valide = Glyph_ok, type_value = Match_exact\<rparr>]
   \<and> length CLUB_SLUG_TO_ID = 20"
proof -
  define df where "df = sheet [(''Zed'', ''other-club''), (''Abe'', ''elche-elche'')]"
  define w where "w = caches_world [(1531, [ustr_of ''Abe''])]"
  define rows where "rows = [\<lparr>nom_joueur = ustr_of ''Abe'', club_attribue = ustr_of ''elche-elche'',
            nom_transfermarkt = ustr_of ''Abe'', similarite = Some 100,
            match_valide = Glyph_ok, type_value = Match_exact\<rparr>]"
  have h: "fst (verifier_effectifs ascii_libs df w) = Inr rows"
    unfolding df_def w_def rows_def by code_simp
  then have v: "verifier_effectifs ascii_libs df w = (Inr rows, snd (verifier_effectifs ascii_libs df w))"
    by (metis prod.collapse)
  note t = unknown_slugs_dropped [of ascii_libs df w]
  from t v have "\<forall>r\<in>set rows. club_attribue r \<in> fst ` set CLUB_SLUG_TO_ID" by blast
  then have "list_all (\<lambda>r. club_attribue r \<in> fst ` set CLUB_SLUG_TO_ID) rows"
    by (simp only: list_all_iff)
  with t h show ?thesis
    unfolding df_def w_def rows_def by (intro conjI) blast+
qed

subsection \<open>The provider client\<close>

text \<open>
  C9, as the spec states it, fails: the read of a fresh cache file is outside any
  \<open>try\<close>. With a fresh file that cannot be read the client returns the error after
  one read and no request, although the provider would have answered, and the whole
  run ends with that error.
\<close>

theorem cache_read_failure_counterexample:
  "is_cache_fresh corrupt_cache_world 1531
   \<and> fst (fetch_or_load_players 1531 (ustr_of ''elche-elche'') corrupt_cache_world) = Inl CacheReadError
   \<and> io_log (snd (fetch_or_load_players 1531 (ustr_of ''elche-elche'') corrupt_cache_world)) = [Read_cache 1531]
   \<and> fst (fetch_attempts 1531 [0..<MAX_RETRIES] corrupt_cache_world) = [ustr_of ''Jon'']
   \<and> fst (verifier_effectifs ascii_libs (sheet [(''Jon'', ''elche-elche'')]) corrupt_cache_world)
       = Inl CacheReadError"
  by code_simp

text \<open>
  C9, amended: when the cache file of a club is fresh the client reads it once, sends
  no request, and returns what the read gives, the list of names or the failure of the
  read.
\<close>

theorem fresh_cache_read_once:
  assumes "is_cache_fresh w club_id"
  shows "\<exists>f. files w club_id = Some f
           \<and> fetch_or_load_players club_id slug w
               = (load f, w\<lparr>io_log := io_log w @ [Read_cache club_id]\<rparr>)"
  using assms by (auto simp: fetch_or_load_players_def is_cache_fresh_def split: option.splits)

theorem fresh_cache_read_once_witness:
  "is_cache_fresh (caches_world [(1531, [ustr_of ''Jon''])]) 1531
   \<and> (\<exists>f. files (caches_world [(1531, [ustr_of ''Jon''])]) 1531 = Some f
         \<and> fetch_or_load_players 1531 (ustr_of ''elche-elche'') (caches_world [(1531, [ustr_of ''Jon''])])
             = (load f, (caches_world [(1531, [ustr_of ''Jon''])])
                  \<lparr>io_log := io_log (caches_world [(1531, [ustr_of ''Jon''])]) @ [Read_cache 1531]\<rparr>))
   \<and> fst (fetch_or_load_players 1531 (ustr_of ''elche-elche'') (caches_world [(1531, [ustr_of ''Jon''])]))
       = Inr [ustr_of ''Jon'']"
proof -
  have h: "is_cache_fresh (caches_world [(1531, [ustr_of ''Jon''])]) 1531" by code_simp
  have e: "fst (fetch_or_load_players 1531 (ustr_of ''elche-elche'') (caches_world [(1531, [ustr_of ''Jon''])]))
       = Inr [ustr_of ''Jon'']" by code_simp
  from fresh_cache_read_once [OF h, of "ustr_of ''elche-elche''"] h e show ?thesis by (intro conjI)
qed

end
